theory Spec2Isabelle
  imports Main "HOL-Library.Monad_Syntax"
begin

section \<open>The C library calls of 99.c\<close>

text \<open>
  The program 99.c is a single \<^verbatim>\<open>main\<close> that writes to standard output with
  \<^verbatim>\<open>printf\<close> and \<^verbatim>\<open>puts\<close>. Standard output is modelled as the string of
  bytes written so far; a call appends to it. The counter \<^verbatim>\<open>n\<close> is a C
  \<^verbatim>\<open>int\<close> that stays within 0..99, far from any overflow, so it is an \<open>int\<close> here.
\<close>

definition newline :: char where
  "newline = CHR 0x0A"

text \<open>The conversion \<^verbatim>\<open>%d\<close>: a minus sign for a negative value, then the decimal
  digits, most significant first, with no leading zero.\<close>

definition digit_char :: "nat \<Rightarrow> char" where
  "digit_char d = ''0123456789'' ! d"

function dec :: "nat \<Rightarrow> string" where
  "dec k = (if k < 10 then [digit_char k] else dec (k div 10) @ [digit_char (k mod 10)])"
  by pat_completeness auto
termination
  by (relation "measure id") auto

declare dec.simps [simp del]

definition fmt_d :: "int \<Rightarrow> string" where
  "fmt_d i = (if i < 0 then CHR ''-'' # dec (nat (- i)) else dec (nat i))"

text \<open>The variadic arguments of a \<^verbatim>\<open>printf\<close> call: 99.c passes \<^verbatim>\<open>int\<close>s and
  string literals.\<close>

datatype arg = ArgInt int | ArgStr string

text \<open>
  The format interpreter, for the directives 99.c uses (\<^verbatim>\<open>%d\<close>, \<^verbatim>\<open>%s\<close>) and
  \<^verbatim>\<open>%%\<close>. A directive with no argument left, with an argument of the wrong type, or
  an unknown or cut-off directive is undefined behaviour in C: the result is \<open>None\<close>.
  Arguments left over at the end of the format are ignored, as in C.
\<close>

fun format :: "string \<Rightarrow> arg list \<Rightarrow> string option" where
  "format [] args = Some []"
| "format (c # fmt) args =
     (if c = CHR ''%'' then
        (case fmt of
           [] \<Rightarrow> None
         | k # fmt' \<Rightarrow>
             if k = CHR ''d'' then
               (case args of
                  ArgInt i # args' \<Rightarrow> map_option (\<lambda>r. fmt_d i @ r) (format fmt' args')
                | _ \<Rightarrow> None)
             else if k = CHR ''s'' then
               (case args of
                  ArgStr s # args' \<Rightarrow> map_option (\<lambda>r. s @ r) (format fmt' args')
                | _ \<Rightarrow> None)
             else if k = CHR ''%'' then map_option (\<lambda>r. CHR ''%'' # r) (format fmt' args)
             else None)
      else map_option (\<lambda>r. c # r) (format fmt args))"

definition printf :: "string \<Rightarrow> arg list \<Rightarrow> string \<Rightarrow> string option" where
  "printf fmt args out = map_option (\<lambda>s. out @ s) (format fmt args)"

definition puts :: "string \<Rightarrow> string \<Rightarrow> string option" where
  "puts s out = Some (out @ s @ [newline])"

section \<open>The program\<close>

text \<open>The body of the \<^verbatim>\<open>for\<close> loop (lines 5 to 9 of 99.c), run with the counter
  at \<open>n\<close> on the output \<open>out\<close>.\<close>

definition body :: "int \<Rightarrow> string \<Rightarrow> string option" where
  "body n out = do {
     out1 \<leftarrow> printf ''%d bottle%s of beer on the wall, %d bottle%s of beer.\<newline>''
               [ArgInt n, ArgStr (if n = 1 then '''' else ''s''),
                ArgInt n, ArgStr (if n = 1 then '''' else ''s'')] out;
     if n - 1 > 0 then
       printf ''Take one down and pass it around, %d bottle%s of beer on the wall.\<newline>\<newline>''
         [ArgInt (n - 1), ArgStr (if n - 1 = 1 then '''' else ''s'')] out1
     else
       printf ''Take one down and pass it around, no more bottles of beer on the wall.\<newline>\<newline>''
         [] out1
   }"

text \<open>
  The loop \<^verbatim>\<open>for (int n = 99; n >= 1; --n)\<close> as a machine on the pair of the counter
  and the output: one iteration runs the body and then decrements the counter; the loop
  iterates while the guard \<^verbatim>\<open>n >= 1\<close> holds and returns the state at which it fails.
\<close>

definition loop_step :: "int \<times> string \<Rightarrow> (int \<times> string) option" where
  "loop_step s = do { out' \<leftarrow> body (fst s) (snd s); Some (fst s - 1, out') }"

function loop :: "int \<times> string \<Rightarrow> (int \<times> string) option" where
  "loop s = (if fst s \<ge> 1 then do { s' \<leftarrow> loop_step s; loop s' } else Some s)"
  by pat_completeness auto
termination
proof (relation "measure (\<lambda>s. nat (fst s))")
  show "wf (measure (\<lambda>s::int \<times> string. nat (fst s)))"
    by simp
next
  fix s s' :: "int \<times> string"
  assume "1 \<le> fst s" and "loop_step s = Some s'"
  then show "(s', s) \<in> measure (\<lambda>s. nat (fst s))"
    by (auto simp: loop_step_def bind_eq_Some_conv)
qed

declare loop.simps [simp del]

text \<open>
  What a process can read from its surroundings. \<^verbatim>\<open>main(void)\<close> takes the
  environment it is started in and reads none of it.
\<close>

record process_env =
  argv :: "string list"
  environ :: "string list"
  stdin :: string
  clock :: nat
  seed :: nat

text \<open>\<^verbatim>\<open>main\<close>: the loop from 99, the two \<^verbatim>\<open>puts\<close>, \<^verbatim>\<open>return 0\<close>. The result
  is the exit status and everything written to standard output.\<close>

definition main :: "process_env \<Rightarrow> (int \<times> string) option" where
  "main env = do {
     s \<leftarrow> loop (99, []);
     out1 \<leftarrow> puts ''No more bottles of beer on the wall, no more bottles of beer.'' (snd s);
     out2 \<leftarrow> puts ''Go to the store and buy some more, 99 bottles of beer on the wall.'' out1;
     Some (0, out2)
   }"

definition verse :: "int \<Rightarrow> string option" where
  "verse n = body n []"

section \<open>The lyrics as the specification words them\<close>

text \<open>The plural suffix: empty for a count of one, \<open>s\<close> otherwise.\<close>

definition plural :: "int \<Rightarrow> string" where
  "plural k = (if k = 1 then '''' else ''s'')"

definition line_A :: "int \<Rightarrow> string" where
  "line_A n = fmt_d n @ '' bottle'' @ plural n @ '' of beer on the wall, ''
     @ fmt_d n @ '' bottle'' @ plural n @ '' of beer.''"

definition line_B :: "int \<Rightarrow> string" where
  "line_B n =
     (if n - 1 > 0 then
        ''Take one down and pass it around, '' @ fmt_d (n - 1) @ '' bottle'' @ plural (n - 1)
          @ '' of beer on the wall.''
      else ''Take one down and pass it around, no more bottles of beer on the wall.'')"

definition verse_text :: "int \<Rightarrow> string" where
  "verse_text n = line_A n @ [newline] @ line_B n @ [newline] @ [newline]"

definition closing_1 :: string where
  "closing_1 = ''No more bottles of beer on the wall, no more bottles of beer.''"

definition closing_2 :: string where
  "closing_2 = ''Go to the store and buy some more, 99 bottles of beer on the wall.''"

definition song :: string where
  "song = concat (map verse_text (rev [1..99])) @ closing_1 @ [newline] @ closing_2 @ [newline]"

section \<open>Reading the output back\<close>

text \<open>The complete (newline-terminated) lines of a text, in order, and what is left
  after the last newline.\<close>

fun lines_from :: "string \<Rightarrow> string \<Rightarrow> string list" where
  "lines_from cur [] = []"
| "lines_from cur (c # cs) =
     (if c = newline then cur # lines_from [] cs else lines_from (cur @ [c]) cs)"

fun rest_from :: "string \<Rightarrow> string \<Rightarrow> string" where
  "rest_from cur [] = cur"
| "rest_from cur (c # cs) = (if c = newline then rest_from [] cs else rest_from (cur @ [c]) cs)"

definition lines_of :: "string \<Rightarrow> string list" where
  "lines_of s = lines_from [] s"

definition unterminated :: "string \<Rightarrow> string" where
  "unterminated s = rest_from [] s"

section \<open>The loop as a machine\<close>

text \<open>
  One transition of the loop from a state: the iteration, when the guard holds; no
  transition, when it fails. \<open>after_iters k\<close> is the state reached from the initial
  state (the counter at 99, nothing written) by k transitions, \<open>None\<close> when there are
  fewer than k.
\<close>

definition loop_next :: "int \<times> string \<Rightarrow> (int \<times> string) option" where
  "loop_next s = (if fst s \<ge> 1 then loop_step s else None)"

definition after_iters :: "nat \<Rightarrow> (int \<times> string) option" where
  "after_iters k = ((\<lambda>s. Option.bind s loop_next) ^^ k) (Some (99, []))"

section \<open>Counting a literal text in the output\<close>

text \<open>\<open>occurrences pat s\<close> is the number of positions of \<open>s\<close> at which \<open>pat\<close> stands,
  byte for byte (so letter case matters); occurrences may overlap.\<close>

fun starts_with :: "string \<Rightarrow> string \<Rightarrow> bool" where
  "starts_with [] s = True"
| "starts_with (p # ps) [] = False"
| "starts_with (p # ps) (c # cs) = (p = c \<and> starts_with ps cs)"

fun occurrences :: "string \<Rightarrow> string \<Rightarrow> nat" where
  "occurrences pat [] = 0"
| "occurrences pat (c # cs) = (if starts_with pat (c # cs) then 1 else 0) + occurrences pat cs"

section \<open>Counts and their nouns in the output\<close>

text \<open>
  The words of a line are its maximal runs of non-space bytes. A mention is a word
  that begins with \<open>bottle\<close> together with the word before it on the same line, which
  is the count it is emitted with (\<open>more\<close>, of \<open>no more\<close>, for zero).
  \<open>bottle_mentions\<close> lists the mentions of a text, line by line; \<open>verse_mentions n\<close>
  is the list expected of the verse for n; \<open>agrees\<close> says that a mention's noun is
  singular exactly for the count \<open>1\<close>.
\<close>

fun words_from :: "string \<Rightarrow> string \<Rightarrow> string list" where
  "words_from cur [] = (if cur = [] then [] else [cur])"
| "words_from cur (c # cs) =
     (if c = CHR '' '' then (if cur = [] then [] else [cur]) @ words_from [] cs
      else words_from (cur @ [c]) cs)"

definition words_of :: "string \<Rightarrow> string list" where
  "words_of s = words_from [] s"

fun mentions :: "string list \<Rightarrow> (string \<times> string) list" where
  "mentions (c # w # ws) = (if starts_with ''bottle'' w then [(c, w)] else []) @ mentions (w # ws)"
| "mentions ws = []"

definition bottle_mentions :: "string \<Rightarrow> (string \<times> string) list" where
  "bottle_mentions out = concat (map (\<lambda>l. mentions (words_of l)) (lines_of out))"

definition agrees :: "string \<times> string \<Rightarrow> bool" where
  "agrees m = (((snd m = ''bottle'') = (fst m = ''1'')) \<and> (snd m = ''bottle'' \<or> snd m = ''bottles''))"

definition verse_mentions :: "int \<Rightarrow> (string \<times> string) list" where
  "verse_mentions n =
     [(fmt_d n, ''bottle'' @ plural n), (fmt_d n, ''bottle'' @ plural n),
      if n - 1 > 0 then (fmt_d (n - 1), ''bottle'' @ plural (n - 1)) else (''more'', ''bottles'')]"

section \<open>Verses in the output\<close>

text \<open>
  A verse, read back from the output, is a run of non-empty lines closed by an empty
  line. \<open>verses_of\<close> lists the verses of a text in order, each as its lines without
  the closing empty line; \<open>after_verses\<close> is the lines left after the last empty line;
  \<open>leading_word\<close> is the first word of a verse, the count it opens with.
\<close>

fun stanzas_from :: "string list \<Rightarrow> string list \<Rightarrow> string list list" where
  "stanzas_from cur [] = []"
| "stanzas_from cur (l # ls) =
     (if l = [] then cur # stanzas_from [] ls else stanzas_from (cur @ [l]) ls)"

fun tail_from :: "string list \<Rightarrow> string list \<Rightarrow> string list" where
  "tail_from cur [] = cur"
| "tail_from cur (l # ls) = (if l = [] then tail_from [] ls else tail_from (cur @ [l]) ls)"

definition verses_of :: "string \<Rightarrow> string list list" where
  "verses_of out = stanzas_from [] (lines_of out)"

definition after_verses :: "string \<Rightarrow> string list" where
  "after_verses out = tail_from [] (lines_of out)"

definition leading_word :: "string list \<Rightarrow> string" where
  "leading_word v = (case v of [] \<Rightarrow> [] | l # ls \<Rightarrow> takeWhile (\<lambda>c. c \<noteq> CHR '' '') l)"

section \<open>The program as a process\<close>

text \<open>
  The same code once more, with every library call a step on the whole state of the
  process: what it was started with (arguments, environment, standard input, clock,
  random seed) and what it has written. \<^verbatim>\<open>printf\<close> and \<^verbatim>\<open>puts\<close> are calls on standard
  output: \<open>on_stdout\<close> runs such a call on the output written so far and stores what it
  returns. \<open>process_body\<close>, \<open>process_loop\<close> and \<open>process_main\<close> are lines 5 to 9, the
  \<^verbatim>\<open>for\<close> statement and \<^verbatim>\<open>main\<close> of 99.c on that state. \<open>start env\<close> is the process
  started in \<open>env\<close> with nothing written; \<open>observed\<close> is what a run shows outside: the exit
  status and the bytes on standard output.
\<close>

record process = process_env +
  stdout :: string

definition on_stdout :: "(string \<Rightarrow> string option) \<Rightarrow> process \<Rightarrow> process option" where
  "on_stdout call p = map_option (\<lambda>out. p\<lparr>stdout := out\<rparr>) (call (stdout p))"

definition process_body :: "int \<Rightarrow> process \<Rightarrow> process option" where
  "process_body n p = do {
     p1 \<leftarrow> on_stdout (printf ''%d bottle%s of beer on the wall, %d bottle%s of beer.\<newline>''
               [ArgInt n, ArgStr (if n = 1 then '''' else ''s''),
                ArgInt n, ArgStr (if n = 1 then '''' else ''s'')]) p;
     if n - 1 > 0 then
       on_stdout (printf ''Take one down and pass it around, %d bottle%s of beer on the wall.\<newline>\<newline>''
         [ArgInt (n - 1), ArgStr (if n - 1 = 1 then '''' else ''s'')]) p1
     else
       on_stdout (printf ''Take one down and pass it around, no more bottles of beer on the wall.\<newline>\<newline>''
         []) p1
   }"

function process_loop :: "int \<times> process \<Rightarrow> (int \<times> process) option" where
  "process_loop s =
     (if fst s \<ge> 1 then do { p \<leftarrow> process_body (fst s) (snd s); process_loop (fst s - 1, p) }
      else Some s)"
  by pat_completeness auto
termination
  by (relation "measure (\<lambda>s. nat (fst s))") auto

declare process_loop.simps [simp del]

definition process_main :: "process \<Rightarrow> (int \<times> process) option" where
  "process_main p = do {
     s \<leftarrow> process_loop (99, p);
     p1 \<leftarrow> on_stdout (puts ''No more bottles of beer on the wall, no more bottles of beer.'') (snd s);
     p2 \<leftarrow> on_stdout (puts ''Go to the store and buy some more, 99 bottles of beer on the wall.'') p1;
     Some (0, p2)
   }"

definition start :: "process_env \<Rightarrow> process" where
  "start env = process_env.extend env (process.fields [])"

definition observed :: "(int \<times> process) option \<Rightarrow> (int \<times> string) option" where
  "observed r = map_option (\<lambda>x. (fst x, stdout (snd x))) r"

section \<open>Decimal rendering\<close>

definition is_digit :: "char \<Rightarrow> bool" where
  "is_digit c = (c \<in> set ''0123456789'')"

lemma digit_char_cases:
  assumes "d < 10"
  shows "d = 0 \<or> d = 1 \<or> d = 2 \<or> d = 3 \<or> d = 4 \<or> d = 5 \<or> d = 6 \<or> d = 7 \<or> d = 8 \<or> d = (9::nat)"
  using assms by arith

lemma is_digit_digit_char: "d < 10 \<Longrightarrow> is_digit (digit_char d)"
  using digit_char_cases [of d] by (auto simp: is_digit_def digit_char_def)

lemma digit_char_one: "d < 10 \<Longrightarrow> digit_char d = CHR ''1'' \<longleftrightarrow> d = 1"
  using digit_char_cases [of d] by (auto simp: digit_char_def)

lemma dec_digits: "list_all is_digit (dec k)"
proof (induction k rule: dec.induct)
  case (1 k)
  show ?case
  proof (cases "k < 10")
    case True
    then show ?thesis
      by (subst dec.simps) (simp add: is_digit_digit_char)
  next
    case False
    with "1" show ?thesis
      by (subst dec.simps) (simp add: is_digit_digit_char)
  qed
qed

lemma dec_nonempty: "dec k \<noteq> []"
  by (subst dec.simps) simp

lemma dec_length_ge2: "10 \<le> k \<Longrightarrow> 2 \<le> length (dec k)"
proof -
  assume "10 \<le> k"
  then have "dec k = dec (k div 10) @ [digit_char (k mod 10)]"
    by (subst dec.simps) simp
  moreover have "1 \<le> length (dec (k div 10))"
    using dec_nonempty [of "k div 10"] by (cases "dec (k div 10)") auto
  ultimately show ?thesis by simp
qed

lemma dec_eq_one: "dec k = ''1'' \<longleftrightarrow> k = 1"
proof (cases "k < 10")
  case True
  then show ?thesis
    by (subst dec.simps) (simp add: digit_char_one)
next
  case False
  then have "2 \<le> length (dec k)" by (simp add: dec_length_ge2)
  with False show ?thesis by auto
qed

lemma fmt_d_nonempty: "fmt_d i \<noteq> []"
  by (simp add: fmt_d_def dec_nonempty)

lemma fmt_d_chars: "list_all (\<lambda>c. is_digit c \<or> c = CHR ''-'') (fmt_d i)"
  using dec_digits [of "nat i"] dec_digits [of "nat (- i)"]
  by (auto simp: fmt_d_def list_all_iff)

lemma fmt_d_nat_digits: "0 \<le> i \<Longrightarrow> list_all is_digit (fmt_d i)"
  by (simp add: fmt_d_def dec_digits)

lemma fmt_d_eq_one: "fmt_d i = ''1'' \<longleftrightarrow> i = 1"
proof (cases "i < 0")
  case True
  then show ?thesis by (simp add: fmt_d_def)
next
  case False
  then show ?thesis by (auto simp: fmt_d_def dec_eq_one)
qed

lemma fmt_d_not_in:
  assumes "\<not> is_digit c" and "c \<noteq> CHR ''-''"
  shows "c \<notin> set (fmt_d i)"
proof
  assume "c \<in> set (fmt_d i)"
  with fmt_d_chars [of i] have "is_digit c \<or> c = CHR ''-''"
    unfolding list_all_iff by blast
  with assms show False by simp
qed

lemma fmt_d_no_newline: "newline \<notin> set (fmt_d i)"
  by (rule fmt_d_not_in) (simp_all add: is_digit_def newline_def)

lemma fmt_d_no_space: "CHR '' '' \<notin> set (fmt_d i)"
  by (rule fmt_d_not_in) (simp_all add: is_digit_def)

section \<open>One iteration writes one verse\<close>

lemma body_text: "body n out = Some (out @ verse_text n)"
  by (simp add: body_def printf_def verse_text_def line_A_def line_B_def plural_def newline_def)

lemma verse_eq: "verse n = Some (verse_text n)"
  by (simp add: verse_def body_text)

section \<open>Lines\<close>

lemma lines_from_line:
  "newline \<notin> set l \<Longrightarrow> lines_from cur (l @ newline # rest) = (cur @ l) # lines_from [] rest"
  by (induction l arbitrary: cur) auto

lemma rest_from_line:
  "newline \<notin> set l \<Longrightarrow> rest_from cur (l @ newline # rest) = rest_from [] rest"
  by (induction l arbitrary: cur) auto

lemma lines_from_append:
  "lines_from cur (a @ b) = lines_from cur a @ lines_from (rest_from cur a) b"
  by (induction a arbitrary: cur) auto

lemma rest_from_append: "rest_from cur (a @ b) = rest_from (rest_from cur a) b"
  by (induction a arbitrary: cur) auto

lemma lines_of_line:
  "newline \<notin> set l \<Longrightarrow> lines_of (l @ newline # rest) = l # lines_of rest"
  using lines_from_line [of l "[]" rest] by (simp add: lines_of_def)

lemma unterminated_line:
  "newline \<notin> set l \<Longrightarrow> unterminated (l @ newline # rest) = unterminated rest"
  using rest_from_line [of l "[]" rest] by (simp add: unterminated_def)

lemma lines_of_append:
  "unterminated a = [] \<Longrightarrow> lines_of (a @ b) = lines_of a @ lines_of b"
  by (simp add: lines_of_def unterminated_def lines_from_append)

lemma unterminated_append:
  "unterminated a = [] \<Longrightarrow> unterminated (a @ b) = unterminated b"
  by (simp add: unterminated_def rest_from_append)

lemma lines_of_Nil: "lines_of [] = []"
  by (simp add: lines_of_def)

lemma unterminated_Nil: "unterminated [] = []"
  by (simp add: unterminated_def)

lemmas fmt_d_no_nl = fmt_d_no_newline [unfolded newline_def]

lemma line_A_no_newline: "newline \<notin> set (line_A n)"
  by (simp add: line_A_def plural_def newline_def fmt_d_no_nl)

lemma line_B_no_newline: "newline \<notin> set (line_B n)"
  by (simp add: line_B_def plural_def newline_def fmt_d_no_nl)

lemma closing_no_newline: "newline \<notin> set closing_1" "newline \<notin> set closing_2"
  by (simp_all add: closing_1_def closing_2_def newline_def)

lemma lines_of_verse_text: "lines_of (verse_text n) = [line_A n, line_B n, []]"
proof -
  have "lines_of (verse_text n) = line_A n # lines_of (line_B n @ newline # [] @ newline # [])"
    unfolding verse_text_def using lines_of_line [OF line_A_no_newline] by simp
  also have "lines_of (line_B n @ newline # [] @ newline # []) = line_B n # lines_of ([] @ newline # [])"
    by (rule lines_of_line [OF line_B_no_newline])
  also have "lines_of ([] @ newline # []) = ['''']"
    by (simp add: lines_of_def)
  finally show ?thesis .
qed

lemma unterminated_verse_text: "unterminated (verse_text n) = []"
proof -
  have "unterminated (verse_text n) = unterminated (line_B n @ newline # [] @ newline # [])"
    unfolding verse_text_def using unterminated_line [OF line_A_no_newline] by simp
  also have "\<dots> = unterminated ([] @ newline # [])"
    by (rule unterminated_line [OF line_B_no_newline])
  also have "\<dots> = []"
    by (simp add: unterminated_def)
  finally show ?thesis .
qed

lemma unterminated_verses: "unterminated (concat (map verse_text ns)) = []"
  by (induction ns) (simp_all add: unterminated_Nil unterminated_append unterminated_verse_text)

lemma lines_of_verses:
  "lines_of (concat (map verse_text ns)) = concat (map (\<lambda>n. [line_A n, line_B n, []]) ns)"
  by (induction ns)
     (simp_all add: lines_of_Nil lines_of_append unterminated_verse_text lines_of_verse_text)

section \<open>The loop\<close>

lemma loop_step_text: "loop_step (n, out) = Some (n - 1, out @ verse_text n)"
  by (simp add: loop_step_def body_text)

lemma loop_exit: "n < 1 \<Longrightarrow> loop (n, out) = Some (n, out)"
  by (subst loop.simps) simp

lemma loop_iterate: "1 \<le> n \<Longrightarrow> loop (n, out) = loop (n - 1, out @ verse_text n)"
  by (subst loop.simps) (simp add: loop_step_text)

lemma rev_upto_step: "1 \<le> n \<Longrightarrow> rev [1..n] = n # rev [1..n - 1]"
  by (simp add: upto_rec2)

lemma loop_run:
  "loop (int k, out) = Some (0, out @ concat (map verse_text (rev [1..int k])))"
proof (induction k arbitrary: out)
  case 0
  then show ?case by (simp add: loop_exit)
next
  case (Suc k)
  have "loop (int (Suc k), out) = loop (int k, out @ verse_text (int (Suc k)))"
    using loop_iterate [of "int (Suc k)" out] by simp
  also have "\<dots> = Some (0, (out @ verse_text (int (Suc k))) @ concat (map verse_text (rev [1..int k])))"
    by (rule Suc.IH)
  also have "rev [1..int (Suc k)] = int (Suc k) # rev [1..int k]"
    using rev_upto_step [of "int (Suc k)"] by simp
  then have "(out @ verse_text (int (Suc k))) @ concat (map verse_text (rev [1..int k]))
     = out @ concat (map verse_text (rev [1..int (Suc k)]))"
    by simp
  finally show ?case .
qed

lemma loop_99: "loop (99, []) = Some (0, concat (map verse_text (rev [1..99])))"
  using loop_run [of 99 "[]"] by simp

lemma main_song: "main env = Some (0, song)"
  by (simp add: main_def loop_99 puts_def song_def closing_1_def closing_2_def)

section \<open>The verses\<close>

text \<open>The first and the last verse, evaluated from the code.\<close>

lemma verse_99:
  "verse 99 = Some (''99 bottles of beer on the wall, 99 bottles of beer.\<newline>''
     @ ''Take one down and pass it around, 98 bottles of beer on the wall.\<newline>\<newline>'')"
  by (simp add: verse_def body_def printf_def fmt_d_def dec.simps digit_char_def)

lemma verse_1:
  "verse 1 = Some (''1 bottle of beer on the wall, 1 bottle of beer.\<newline>''
     @ ''Take one down and pass it around, no more bottles of beer on the wall.\<newline>\<newline>'')"
  by (simp add: verse_def body_def printf_def fmt_d_def dec.simps digit_char_def)

text \<open>
  Claim C1. For every n from 99 down to 1, the text that the loop body writes for n (the
  verse for n) begins with a newline-terminated line that is exactly the decimal n,
  \<open>bottle\<close> with the plural suffix of n, \<open>of beer on the wall,\<close>, the same n and the
  same suffix again, and \<open>of beer.\<close>; the suffix is empty for n = 1 and \<open>s\<close> otherwise.
\<close>

theorem verse_first_line:
  assumes "n \<in> {1..99}"
  shows "map_option (\<lambda>t. take 1 (lines_of t)) (verse n) =
    Some [fmt_d n @ '' bottle'' @ (if n = 1 then '''' else ''s'') @ '' of beer on the wall, ''
          @ fmt_d n @ '' bottle'' @ (if n = 1 then '''' else ''s'') @ '' of beer.'']"
  by (simp add: verse_eq lines_of_verse_text line_A_def plural_def)

theorem verse_first_line_witness:
  "(99::int) \<in> {1..99} \<and> (1::int) \<in> {1..99}
   \<and> map_option (\<lambda>t. take 1 (lines_of t)) (verse 99) =
       Some [''99 bottles of beer on the wall, 99 bottles of beer.'']
   \<and> map_option (\<lambda>t. take 1 (lines_of t)) (verse 1) =
       Some [''1 bottle of beer on the wall, 1 bottle of beer.'']"
  using verse_first_line [of 99] verse_first_line [of 1]
  by (simp add: fmt_d_def dec.simps digit_char_def)

text \<open>
  Claim C2. For every n from 99 down to 1, the lines of the verse for n after the first
  are the second line and one empty line, with nothing after the blank line's newline.
  The second line is \<open>Take one down and pass it around,\<close> followed by the decimal n - 1,
  \<open>bottle\<close> with the plural suffix of n - 1 and \<open>of beer on the wall.\<close> when n - 1 > 0,
  and the fixed \<open>no more bottles\<close> text otherwise, which is the case n - 1 = 0.
\<close>

theorem verse_second_line:
  assumes "n \<in> {1..99}"
  shows "map_option (\<lambda>t. drop 1 (lines_of t)) (verse n) =
    Some [if n - 1 > 0
          then ''Take one down and pass it around, '' @ fmt_d (n - 1) @ '' bottle''
                 @ (if n - 1 = 1 then '''' else ''s'') @ '' of beer on the wall.''
          else ''Take one down and pass it around, no more bottles of beer on the wall.'',
          '''']
    \<and> map_option unterminated (verse n) = Some ''''
    \<and> (n - 1 > 0 \<or> n - 1 = 0)"
  using assms
  by (auto simp: verse_eq lines_of_verse_text unterminated_verse_text line_B_def plural_def)

theorem verse_second_line_witness:
  "(99::int) \<in> {1..99} \<and> (2::int) \<in> {1..99} \<and> (1::int) \<in> {1..99}
   \<and> map_option (\<lambda>t. drop 1 (lines_of t)) (verse 99) =
       Some [''Take one down and pass it around, 98 bottles of beer on the wall.'', '''']
   \<and> map_option (\<lambda>t. drop 1 (lines_of t)) (verse 2) =
       Some [''Take one down and pass it around, 1 bottle of beer on the wall.'', '''']
   \<and> map_option (\<lambda>t. drop 1 (lines_of t)) (verse 1) =
       Some [''Take one down and pass it around, no more bottles of beer on the wall.'', '''']"
  using verse_second_line [of 99] verse_second_line [of 2] verse_second_line [of 1]
  by (simp add: fmt_d_def dec.simps digit_char_def)

section \<open>The whole output\<close>

lemma those_verses: "those (map verse ns) = Some (map verse_text ns)"
  by (induction ns) (simp_all add: verse_eq)

lemma countdown: "rev [1..int m] = map (\<lambda>k. int m - int k) [0..<m]"
proof (induction m)
  case 0
  then show ?case by simp
next
  case (Suc m)
  have "rev [1..int (Suc m)] = int (Suc m) # rev [1..int m]"
    using rev_upto_step [of "int (Suc m)"] by simp
  also have "rev [1..int m] = map (\<lambda>k. int m - int k) [0..<m]"
    by (rule Suc.IH)
  also have "int (Suc m) # map (\<lambda>k. int m - int k) [0..<m]
      = map (\<lambda>k. int (Suc m) - int k) (0 # map Suc [0..<m])"
    by simp
  also have "0 # map Suc [0..<m] = [0..<Suc m]"
    by (simp add: map_Suc_upt upt_conv_Cons del: upt_Suc)
  finally show ?case .
qed

lemma length_rev_upto: "length (rev [1..int m]) = m"
  by (simp add: countdown)

lemma song_split:
  "song = concat (map verse_text (rev [2..99])) @ verse_text 1 @ closing_1 @ [newline] @ closing_2 @ [newline]"
proof -
  have "[1..99] = 1 # [2..99]"
    by (simp add: upto_rec1)
  then show ?thesis by (simp add: song_def)
qed

text \<open>
  Claim C5. Right after the verse for n = 1 the program writes the two fixed closing
  lines, each ended by a newline, and the output ends there: no blank line and nothing
  else follows.
\<close>

theorem closing_lines:
  "main env = Some (0, concat (map verse_text (rev [2..99])) @ verse_text 1
       @ ''No more bottles of beer on the wall, no more bottles of beer.\<newline>''
       @ ''Go to the store and buy some more, 99 bottles of beer on the wall.\<newline>'')
   \<and> verse 1 = Some (verse_text 1)
   \<and> those (map verse (rev [2..99])) = Some (map verse_text (rev [2..99]))"
  by (simp add: main_song song_split verse_eq those_verses closing_1_def closing_2_def newline_def)

lemma length_triples: "length (concat (map (\<lambda>n. [f n, g n, h n]) ns)) = 3 * length ns"
  by (induction ns) simp_all

lemma lines_of_song:
  "lines_of song = concat (map (\<lambda>n. [line_A n, line_B n, []]) (rev [1..99])) @ [closing_1, closing_2]"
proof -
  have "lines_of song = lines_of (concat (map verse_text (rev [1..99])))
      @ lines_of (closing_1 @ newline # closing_2 @ newline # [])"
    unfolding song_def using lines_of_append [OF unterminated_verses] by simp
  also have "lines_of (closing_1 @ newline # closing_2 @ newline # []) = [closing_1, closing_2]"
    by (simp add: lines_of_line closing_no_newline lines_of_Nil)
  finally show ?thesis by (simp add: lines_of_verses)
qed

lemma unterminated_song: "unterminated song = []"
proof -
  have "unterminated song = unterminated (closing_1 @ newline # closing_2 @ newline # [])"
    unfolding song_def using unterminated_append [OF unterminated_verses] by simp
  also have "\<dots> = []"
    by (simp add: unterminated_line closing_no_newline unterminated_Nil)
  finally show ?thesis .
qed

text \<open>
  Claim C10. The output is 299 newline-terminated lines, three for each of the 99 verses
  (two text lines and an empty one) and then the two closing lines; nothing is left
  after the last newline, which is the final character.
\<close>

theorem output_299_lines:
  "main env = Some (0, song)
   \<and> length (lines_of song) = 299
   \<and> unterminated song = []
   \<and> last song = newline
   \<and> lines_of song
       = concat (map (\<lambda>n. [line_A n, line_B n, '''']) (rev [1..99])) @ [closing_1, closing_2]"
proof -
  have "length (rev [1..int 99]) = 99"
    by (rule length_rev_upto)
  then have "length (lines_of song) = 299"
    by (simp add: lines_of_song length_triples)
  moreover have "last song = newline"
    by (simp add: song_def)
  ultimately show ?thesis
    by (simp add: main_song unterminated_song lines_of_song)
qed

section \<open>The counter\<close>

lemma after_iters_Suc: "after_iters (Suc k) = Option.bind (after_iters k) loop_next"
  by (simp add: after_iters_def)

lemma after_iters_state:
  "k \<le> 99 \<Longrightarrow>
   after_iters k = Some (99 - int k, concat (map verse_text (map (\<lambda>j. 99 - int j) [0..<k])))"
proof (induction k)
  case 0
  then show ?case by (simp add: after_iters_def)
next
  case (Suc k)
  then have "after_iters k
      = Some (99 - int k, concat (map verse_text (map (\<lambda>j. 99 - int j) [0..<k])))"
    by simp
  moreover from Suc.prems have "1 \<le> 99 - int k"
    by simp
  ultimately show ?case
    by (simp add: after_iters_Suc loop_next_def loop_step_text)
qed

lemma after_iters_99: "after_iters 99 = Some (0, concat (map verse_text (rev [1..99])))"
  using after_iters_state [of 99] countdown [of 99] by simp

lemma after_iters_100: "after_iters 100 = None"
proof -
  have "after_iters (Suc 99) = Option.bind (after_iters 99) loop_next"
    by (rule after_iters_Suc)
  then show ?thesis
    by (simp add: after_iters_99 loop_next_def)
qed

lemma loop_unfold: "loop s = (case loop_next s of None \<Rightarrow> Some s | Some s' \<Rightarrow> loop s')"
proof (cases s)
  case (Pair n out)
  then show ?thesis
    by (subst loop.simps) (simp add: loop_next_def loop_step_text)
qed

text \<open>
  Claim C6. As a machine on the counter: the initial counter is 99; every iteration
  lowers it by exactly 1; the loop follows the transitions until there is none; after k
  transitions (k from 0 to 99) the counter is 99 - k and the output is the verses of
  99, 98, ..., 100 - k, so the body has run once for each n from 99 down to 1; at the
  counter 0 there is no 100th transition and the loop writes nothing; the couplet is
  written by \<^verbatim>\<open>main\<close> after the loop.
\<close>

theorem counting_machine:
  "after_iters 0 = Some (99, [])
   \<and> (\<forall>n out. map_option fst (loop_step (n, out)) = Some (n - 1))
   \<and> (\<forall>s. loop s = (case loop_next s of None \<Rightarrow> Some s | Some s' \<Rightarrow> loop s'))
   \<and> map after_iters [0..<100]
       = map (\<lambda>k. Some (99 - int k, concat (map verse_text (map (\<lambda>j. 99 - int j) [0..<k]))))
           [0..<100]
   \<and> after_iters 100 = None
   \<and> loop (99, []) = after_iters 99
   \<and> map_option fst (after_iters 99) = Some 0
   \<and> (\<forall>out. loop (0, out) = Some (0, out))
   \<and> main env = Option.bind (loop (99, []))
       (\<lambda>s. Some (0, snd s @ ''No more bottles of beer on the wall, no more bottles of beer.\<newline>''
                    @ ''Go to the store and buy some more, 99 bottles of beer on the wall.\<newline>''))"
proof -
  have a: "after_iters 0 = Some (99, [])"
    by (simp add: after_iters_def)
  have b: "\<forall>n out. map_option fst (loop_step (n, out)) = Some (n - 1)"
    by (simp add: loop_step_text)
  have c: "\<forall>s. loop s = (case loop_next s of None \<Rightarrow> Some s | Some s' \<Rightarrow> loop s')"
    using loop_unfold by blast
  have d: "map after_iters [0..<100]
       = map (\<lambda>k. Some (99 - int k, concat (map verse_text (map (\<lambda>j. 99 - int j) [0..<k]))))
           [0..<100]"
    by (rule map_cong [OF refl]) (simp add: after_iters_state)
  have e: "loop (99, []) = after_iters 99"
    by (simp add: loop_99 after_iters_99)
  have f: "map_option fst (after_iters 99) = Some 0"
    by (simp add: after_iters_99)
  have g: "\<forall>out. loop (0, out) = Some (0, out)"
    by (simp add: loop_exit)
  have h: "main env = Option.bind (loop (99, []))
       (\<lambda>s. Some (0, snd s @ ''No more bottles of beer on the wall, no more bottles of beer.\<newline>''
                    @ ''Go to the store and buy some more, 99 bottles of beer on the wall.\<newline>''))"
    by (simp add: main_def puts_def newline_def)
  from a b c d e f g h after_iters_100 show ?thesis
    by blast
qed

section \<open>Occurrences of a text\<close>

lemma starts_with_length: "starts_with pat s \<Longrightarrow> length pat \<le> length s"
  by (induction pat s rule: starts_with.induct) auto

lemma starts_with_self: "starts_with pat (pat @ s)"
  by (induction pat) auto

lemma starts_with_head: "pat \<noteq> [] \<Longrightarrow> c \<notin> set pat \<Longrightarrow> \<not> starts_with pat (c # s)"
  by (cases pat) auto

lemma starts_with_sep:
  "c \<notin> set pat \<Longrightarrow> starts_with pat (l @ c # rest) = starts_with pat l"
proof (induction pat l rule: starts_with.induct)
  case (1 s)
  then show ?case by simp
next
  case (2 p ps)
  then show ?case by auto
next
  case (3 p ps d ds)
  then show ?case by auto
qed

lemma occurrences_short: "length s < length pat \<Longrightarrow> occurrences pat s = 0"
proof (induction s)
  case Nil
  then show ?case by simp
next
  case (Cons c cs)
  then have "\<not> starts_with pat (c # cs)"
    using starts_with_length [of pat "c # cs"] by auto
  with Cons show ?case by simp
qed

lemma occurrences_self: "pat \<noteq> [] \<Longrightarrow> occurrences pat pat = 1"
proof -
  assume "pat \<noteq> []"
  then obtain p ps where pat: "pat = p # ps"
    by (cases pat) auto
  have "starts_with pat pat"
    using starts_with_self [of pat "[]"] by simp
  moreover have "occurrences pat ps = 0"
    by (rule occurrences_short) (simp add: pat)
  ultimately show ?thesis
    using pat by (metis occurrences.simps(2) add.right_neutral)
qed

lemma occurrences_sep:
  "c \<notin> set pat \<Longrightarrow> pat \<noteq> [] \<Longrightarrow>
   occurrences pat (l @ c # rest) = occurrences pat l + occurrences pat rest"
proof (induction l)
  case Nil
  then show ?case by (simp add: starts_with_head)
next
  case (Cons d ds)
  have "starts_with pat ((d # ds) @ c # rest) = starts_with pat (d # ds)"
    using Cons.prems(1) by (rule starts_with_sep)
  with Cons show ?case by simp
qed

lemma occurrences_skip:
  "\<forall>c\<in>set t. c \<notin> set pat \<Longrightarrow> pat \<noteq> [] \<Longrightarrow> occurrences pat (t @ s) = occurrences pat s"
  by (induction t) (simp_all add: starts_with_head)

lemma occurrences_none:
  "\<forall>c\<in>set t. c \<notin> set pat \<Longrightarrow> pat \<noteq> [] \<Longrightarrow> occurrences pat t = 0"
  using occurrences_skip [of t pat "[]"] by simp

lemma occurrences_self_sep:
  "c \<notin> set pat \<Longrightarrow> pat \<noteq> [] \<Longrightarrow> occurrences pat (pat @ c # rest) = 1 + occurrences pat rest"
  by (simp add: occurrences_sep occurrences_self)

lemma fmt_d_disjoint:
  assumes "list_all (\<lambda>c. \<not> is_digit c \<and> c \<noteq> CHR ''-'') pat"
  shows "\<forall>c\<in>set (fmt_d i). c \<notin> set pat"
proof
  fix c
  assume "c \<in> set (fmt_d i)"
  with fmt_d_chars [of i] have "is_digit c \<or> c = CHR ''-''"
    unfolding list_all_iff by blast
  with assms show "c \<notin> set pat"
    unfolding list_all_iff by blast
qed

lemma occurrences_skip_fmt_d:
  "list_all (\<lambda>c. \<not> is_digit c \<and> c \<noteq> CHR ''-'') pat \<Longrightarrow> pat \<noteq> [] \<Longrightarrow>
   occurrences pat (fmt_d i @ s) = occurrences pat s"
  by (rule occurrences_skip [OF fmt_d_disjoint])

lemma no_more_line_A: "occurrences ''no more bottles'' (line_A n) = 0"
  by (simp add: line_A_def plural_def occurrences_skip_fmt_d is_digit_def)

lemma no_more_line_B:
  "occurrences ''no more bottles'' (line_B n) = (if n - 1 > 0 then 0 else 1)"
  by (simp add: line_B_def plural_def occurrences_skip_fmt_d is_digit_def)

lemma no_more_closing:
  "occurrences ''no more bottles'' closing_1 = 1"
  "occurrences ''no more bottles'' closing_2 = 0"
  by (simp_all add: closing_1_def closing_2_def)

lemma occurrences_verse_text:
  assumes "newline \<notin> set pat" and "pat \<noteq> []"
  shows "occurrences pat (verse_text n @ rest)
    = occurrences pat (line_A n) + occurrences pat (line_B n) + occurrences pat rest"
proof -
  have "verse_text n @ rest = line_A n @ newline # (line_B n @ newline # ([] @ newline # rest))"
    by (simp add: verse_text_def)
  then show ?thesis
    by (simp only: occurrences_sep [OF assms] occurrences.simps add_0 add.assoc)
qed

lemma occurrences_verses:
  assumes "newline \<notin> set pat" and "pat \<noteq> []"
  shows "occurrences pat (concat (map verse_text ns) @ rest)
    = sum_list (map (\<lambda>n. occurrences pat (line_A n) + occurrences pat (line_B n)) ns)
      + occurrences pat rest"
  by (induction ns) (simp_all add: occurrences_verse_text [OF assms])

lemma upto_2_99_pos: "\<forall>n\<in>set (rev [2..99]). n - 1 > (0::int)"
  by simp

lemma rev_upto_1_99: "rev [1..99] = rev [2..99] @ [1::int]"
  by (simp add: upto_rec1)

lemma no_more_song: "occurrences ''no more bottles'' song = 2"
proof -
  let ?p = "''no more bottles''"
  have p: "newline \<notin> set ?p" "?p \<noteq> []"
    by (simp_all add: newline_def)
  have "sum_list (map (\<lambda>n. occurrences ?p (line_A n) + occurrences ?p (line_B n)) (rev [2..99])) = 0"
    using upto_2_99_pos by (simp add: no_more_line_A no_more_line_B)
  then have v: "sum_list (map (\<lambda>n. occurrences ?p (line_A n) + occurrences ?p (line_B n)) (rev [1..99])) = 1"
    unfolding rev_upto_1_99 by (simp add: no_more_line_A no_more_line_B)
  have "occurrences ?p (closing_1 @ newline # (closing_2 @ newline # [])) = 1"
    by (simp only: occurrences_sep [OF p] no_more_closing occurrences.simps)
  then have c: "occurrences ?p (closing_1 @ [newline] @ closing_2 @ [newline]) = 1"
    by simp
  show ?thesis
    unfolding song_def occurrences_verses [OF p] v c by simp
qed

lemma zero_lines:
  "\<forall>n\<in>set ns. n - 1 > 0 \<Longrightarrow>
   \<forall>x\<in>set (map (occurrences ''no more bottles'')
              (concat (map (\<lambda>n. [line_A n, line_B n, []]) ns))). x = 0"
  by (induction ns) (simp_all add: no_more_line_A no_more_line_B)

lemma lines_of_song_split:
  "lines_of song = concat (map (\<lambda>n. [line_A n, line_B n, []]) (rev [2..99]))
     @ [line_A 1, line_B 1, [], closing_1, closing_2]"
  unfolding lines_of_song rev_upto_1_99 by simp

lemma no_more_lines:
  "map (occurrences ''no more bottles'') (lines_of song) = replicate 294 0 @ [0, 1, 0, 1, 0]"
proof -
  have "length (rev [2..99::int]) = 98"
    by simp
  then have "length (map (occurrences ''no more bottles'')
          (concat (map (\<lambda>n. [line_A n, line_B n, []]) (rev [2..99])))) = 294"
    by (simp only: length_map length_triples)
  then have a: "map (occurrences ''no more bottles'')
          (concat (map (\<lambda>n. [line_A n, line_B n, []]) (rev [2..99]))) = replicate 294 0"
    using zero_lines [OF upto_2_99_pos] by (intro replicate_eqI) blast+
  show ?thesis
    unfolding lines_of_song_split map_append a
    by (simp add: no_more_line_A no_more_line_B no_more_closing)
qed

lemma drop_lines_of_song:
  "drop 294 (lines_of song) = [line_A 1, line_B 1, [], closing_1, closing_2]"
proof -
  have "length (rev [2..99::int]) = 98"
    by simp
  then have "length (concat (map (\<lambda>n. [line_A n, line_B n, []]) (rev [2..99]))) = 294"
    by (simp only: length_triples)
  then show ?thesis
    unfolding lines_of_song_split by (simp only: append_eq_conv_conj drop_append drop_all) simp
qed

text \<open>With a capital N the text stands once more, at the start of the first closing
  line.\<close>

lemma capital_no_more_song: "occurrences ''No more bottles'' song = 1"
proof -
  let ?p = "''No more bottles''"
  have p: "newline \<notin> set ?p" "?p \<noteq> []"
    by (simp_all add: newline_def)
  have a: "occurrences ?p (line_A n) = 0" for n
    by (simp add: line_A_def plural_def occurrences_skip_fmt_d is_digit_def)
  have b: "occurrences ?p (line_B n) = 0" for n
    by (simp add: line_B_def plural_def occurrences_skip_fmt_d is_digit_def)
  have c1: "occurrences ?p closing_1 = 1" and c2: "occurrences ?p closing_2 = 0"
    by (simp_all add: closing_1_def closing_2_def)
  have "occurrences ?p (closing_1 @ newline # (closing_2 @ newline # [])) = 1"
    by (simp only: occurrences_sep [OF p] c1 c2 occurrences.simps)
  then have c: "occurrences ?p (closing_1 @ [newline] @ closing_2 @ [newline]) = 1"
    by simp
  show ?thesis
    unfolding song_def occurrences_verses [OF p] c by (simp add: a b)
qed

text \<open>
  Claim C7. The text \<open>no more bottles\<close> stands exactly twice in the whole output. Line
  by line, the counts are zero on the 294 lines of the verses for 99 down to 2, then
  0, 1, 0 on the three lines of the verse for 1 (the one occurrence is in its second
  line) and 1, 0 on the two closing lines (the other occurrence is in the closing line
  \<open>No more bottles ..., no more bottles of beer.\<close>, whose capitalised opening is not a
  match byte for byte).
\<close>

theorem no_more_bottles_twice:
  "main env = Some (0, song)
   \<and> occurrences ''no more bottles'' song = 2
   \<and> map (occurrences ''no more bottles'') (lines_of song) = replicate 294 0 @ [0, 1, 0, 1, 0]
   \<and> map_option lines_of (verse 1) = Some (take 3 (drop 294 (lines_of song)))
   \<and> drop 295 (lines_of song) =
       [''Take one down and pass it around, no more bottles of beer on the wall.'',
        '''',
        ''No more bottles of beer on the wall, no more bottles of beer.'',
        ''Go to the store and buy some more, 99 bottles of beer on the wall.'']"
proof -
  have "drop 295 (lines_of song) = drop 1 (drop 294 (lines_of song))"
    by simp
  then have "drop 295 (lines_of song) = [line_B 1, [], closing_1, closing_2]"
    by (simp only: drop_lines_of_song) simp
  then have d: "drop 295 (lines_of song) =
       [''Take one down and pass it around, no more bottles of beer on the wall.'',
        '''',
        ''No more bottles of beer on the wall, no more bottles of beer.'',
        ''Go to the store and buy some more, 99 bottles of beer on the wall.'']"
    by (simp add: line_B_def closing_1_def closing_2_def)
  have v: "map_option lines_of (verse 1) = Some (take 3 (drop 294 (lines_of song)))"
    by (simp add: verse_eq lines_of_verse_text drop_lines_of_song)
  from main_song no_more_song no_more_lines v d show ?thesis
    by blast
qed

lemma occurrences_twice:
  assumes "pat \<noteq> []" and "\<forall>c\<in>set t1. c \<notin> set pat" and "\<forall>c\<in>set t2. c \<notin> set pat"
    and "t1 \<noteq> []" and "t2 \<noteq> []"
  shows "occurrences pat (pat @ t1 @ pat @ t2) = 2"
proof -
  obtain c1 r1 where t1: "t1 = c1 # r1" using assms(4) by (cases t1) auto
  obtain c2 r2 where t2: "t2 = c2 # r2" using assms(5) by (cases t2) auto
  have c1: "c1 \<notin> set pat" and r1: "\<forall>c\<in>set r1. c \<notin> set pat"
    using assms(2) t1 by auto
  have c2: "c2 \<notin> set pat" and r2: "\<forall>c\<in>set r2. c \<notin> set pat"
    using assms(3) t2 by auto
  have "occurrences pat (pat @ c1 # (r1 @ pat @ t2)) = 1 + occurrences pat (r1 @ pat @ t2)"
    by (rule occurrences_self_sep [OF c1 assms(1)])
  also have "occurrences pat (r1 @ pat @ t2) = occurrences pat (pat @ c2 # r2)"
    unfolding t2 by (rule occurrences_skip [OF r1 assms(1)])
  also have "\<dots> = 1 + occurrences pat r2"
    by (rule occurrences_self_sep [OF c2 assms(1)])
  also have "occurrences pat r2 = 0"
    by (rule occurrences_none [OF r2 assms(1)])
  finally show ?thesis by (simp add: t1)
qed

lemma occurrences_once:
  assumes "pat \<noteq> []" and "\<forall>c\<in>set t1. c \<notin> set pat" and "\<forall>c\<in>set t2. c \<notin> set pat"
    and "t2 \<noteq> []"
  shows "occurrences pat (t1 @ pat @ t2) = 1"
proof -
  obtain c2 r2 where t2: "t2 = c2 # r2" using assms(4) by (cases t2) auto
  have c2: "c2 \<notin> set pat" and r2: "\<forall>c\<in>set r2. c \<notin> set pat"
    using assms(3) t2 by auto
  have "occurrences pat (t1 @ pat @ t2) = occurrences pat (pat @ c2 # r2)"
    unfolding t2 by (rule occurrences_skip [OF assms(2) assms(1)])
  also have "\<dots> = 1 + occurrences pat r2"
    by (rule occurrences_self_sep [OF c2 assms(1)])
  also have "occurrences pat r2 = 0"
    by (rule occurrences_none [OF r2 assms(1)])
  finally show ?thesis by simp
qed

lemma count_in_line_A: "occurrences (fmt_d n) (line_A n) = 2"
proof -
  let ?t1 = "'' bottle'' @ plural n @ '' of beer on the wall, ''"
  let ?t2 = "'' bottle'' @ plural n @ '' of beer.''"
  have "line_A n = fmt_d n @ ?t1 @ fmt_d n @ ?t2"
    by (simp add: line_A_def)
  moreover have "occurrences (fmt_d n) (fmt_d n @ ?t1 @ fmt_d n @ ?t2) = 2"
    by (rule occurrences_twice) (simp_all add: fmt_d_nonempty plural_def fmt_d_not_in is_digit_def)
  ultimately show ?thesis by simp
qed

lemma count_in_line_B:
  assumes "n - 1 > 0"
  shows "occurrences (fmt_d (n - 1)) (line_B n) = 1"
proof -
  let ?t1 = "''Take one down and pass it around, ''"
  let ?t2 = "'' bottle'' @ plural (n - 1) @ '' of beer on the wall.''"
  have "line_B n = ?t1 @ fmt_d (n - 1) @ ?t2"
    using assms by (simp add: line_B_def)
  moreover have "occurrences (fmt_d (n - 1)) (?t1 @ fmt_d (n - 1) @ ?t2) = 1"
    by (rule occurrences_once) (simp_all add: fmt_d_nonempty plural_def fmt_d_not_in is_digit_def)
  ultimately show ?thesis by simp
qed

text \<open>
  Claim C8, as amended. For every n from 2 to 99, the decimal n stands exactly twice in
  the first line of the verse for n, and the decimal n - 1 stands exactly once in its
  second line.
\<close>

theorem counts_in_verse:
  assumes "n \<in> {2..99}"
  shows "map_option (\<lambda>t. occurrences (fmt_d n) (lines_of t ! 0)) (verse n) = Some 2
    \<and> map_option (\<lambda>t. occurrences (fmt_d (n - 1)) (lines_of t ! 1)) (verse n) = Some 1"
  using assms by (simp add: verse_eq lines_of_verse_text count_in_line_A count_in_line_B)

theorem counts_in_verse_witness:
  "(50::int) \<in> {2..99}
   \<and> map_option (\<lambda>t. occurrences ''50'' (lines_of t ! 0)) (verse 50) = Some 2
   \<and> map_option (\<lambda>t. occurrences ''49'' (lines_of t ! 1)) (verse 50) = Some 1
   \<and> fmt_d 50 = ''50'' \<and> fmt_d (50 - 1) = ''49''"
proof -
  have f: "fmt_d 50 = ''50''" "fmt_d 49 = ''49''"
    by (simp_all add: fmt_d_def dec.simps digit_char_def)
  show ?thesis
    using counts_in_verse [of 50] by (simp add: f)
qed

text \<open>
  Claim C8 as stated asks for two occurrences of n - 1 in the second line. For n = 50
  the second line holds \<open>49\<close> once.
\<close>

theorem second_line_count_counterexample:
  "(50::int) \<in> {2..99}
   \<and> map_option (\<lambda>t. occurrences (fmt_d (50 - 1)) (lines_of t ! 1)) (verse 50) \<noteq> Some 2"
proof -
  have f: "fmt_d 49 = ''49''"
    by (simp add: fmt_d_def dec.simps digit_char_def)
  have "lines_of (verse_text 50) ! 1
      = ''Take one down and pass it around, 49 bottles of beer on the wall.''"
    by (simp add: lines_of_verse_text line_B_def plural_def f)
  then show ?thesis
    by (simp add: verse_eq f)
qed

section \<open>Singular and plural\<close>

lemma words_from_skip:
  "CHR '' '' \<notin> set t \<Longrightarrow> words_from cur (t @ s) = words_from (cur @ t) s"
  by (induction t arbitrary: cur) auto

lemma words_from_fmt_d: "words_from cur (fmt_d i @ s) = words_from (cur @ fmt_d i) s"
  by (rule words_from_skip [OF fmt_d_no_space])

lemma starts_with_first: "starts_with (p # ps) s \<Longrightarrow> p \<in> set s"
  by (cases s) auto

lemma fmt_d_not_noun: "\<not> starts_with ''bottle'' (fmt_d i)"
proof
  assume "starts_with ''bottle'' (fmt_d i)"
  then have "CHR ''b'' \<in> set (fmt_d i)"
    by (rule starts_with_first)
  moreover have "CHR ''b'' \<notin> set (fmt_d i)"
    by (rule fmt_d_not_in) (simp_all add: is_digit_def)
  ultimately show False by simp
qed

lemma words_of_line_A:
  "words_of (line_A n) =
     [fmt_d n, ''bottle'' @ plural n, ''of'', ''beer'', ''on'', ''the'', ''wall,'',
      fmt_d n, ''bottle'' @ plural n, ''of'', ''beer.'']"
  by (simp add: words_of_def line_A_def plural_def words_from_fmt_d fmt_d_nonempty)

lemma words_of_line_B:
  "words_of (line_B n) =
     (if n - 1 > 0 then
        [''Take'', ''one'', ''down'', ''and'', ''pass'', ''it'', ''around,'',
         fmt_d (n - 1), ''bottle'' @ plural (n - 1), ''of'', ''beer'', ''on'', ''the'', ''wall.'']
      else
        [''Take'', ''one'', ''down'', ''and'', ''pass'', ''it'', ''around,'',
         ''no'', ''more'', ''bottles'', ''of'', ''beer'', ''on'', ''the'', ''wall.''])"
  by (simp add: words_of_def line_B_def plural_def words_from_fmt_d fmt_d_nonempty)

lemma mentions_line_A:
  "mentions (words_of (line_A n)) =
     [(fmt_d n, ''bottle'' @ plural n), (fmt_d n, ''bottle'' @ plural n)]"
  by (simp add: words_of_line_A plural_def fmt_d_not_noun)

lemma mentions_line_B:
  "mentions (words_of (line_B n)) =
     [if n - 1 > 0 then (fmt_d (n - 1), ''bottle'' @ plural (n - 1)) else (''more'', ''bottles'')]"
  by (simp add: words_of_line_B plural_def fmt_d_not_noun)

lemma mentions_blank: "mentions (words_of []) = []"
  by (simp add: words_of_def)

lemma mentions_closing:
  "mentions (words_of closing_1) = [(''more'', ''bottles''), (''more'', ''bottles'')]"
  "mentions (words_of closing_2) = [(''99'', ''bottles'')]"
  by (simp_all add: words_of_def closing_1_def closing_2_def)

lemma mentions_of_verses:
  "concat (map (\<lambda>l. mentions (words_of l)) (concat (map (\<lambda>n. [line_A n, line_B n, []]) ns)))
     = concat (map verse_mentions ns)"
  by (induction ns)
     (simp_all add: mentions_line_A mentions_line_B mentions_blank verse_mentions_def)

lemma bottle_mentions_song:
  "bottle_mentions song = concat (map verse_mentions (rev [1..99]))
     @ [(''more'', ''bottles''), (''more'', ''bottles''), (''99'', ''bottles'')]"
  unfolding bottle_mentions_def lines_of_song map_append concat_append mentions_of_verses
  by (simp add: mentions_closing)

lemma agrees_count: "agrees (fmt_d i, ''bottle'' @ plural i)"
  by (simp add: agrees_def plural_def fmt_d_eq_one)

lemma agrees_fixed: "agrees (''more'', ''bottles'')" "agrees (''99'', ''bottles'')"
  by (simp_all add: agrees_def)

lemma agrees_verse: "list_all agrees (verse_mentions n)"
  using agrees_count [of n] agrees_count [of "n - 1"]
  by (simp add: verse_mentions_def agrees_fixed)

lemma agrees_verses: "list_all agrees (concat (map verse_mentions ns))"
  by (induction ns) (simp_all add: agrees_verse)

lemma agrees_song: "list_all agrees (bottle_mentions song)"
  by (simp add: bottle_mentions_song agrees_verses agrees_fixed)

lemma length_verse_mentions: "length (concat (map verse_mentions ns)) = 3 * length ns"
  by (induction ns) (simp_all add: verse_mentions_def)

lemma length_bottle_mentions: "length (bottle_mentions song) = 300"
proof -
  have "length (rev [1..99::int]) = 99"
    by simp
  then show ?thesis
    by (simp add: bottle_mentions_song length_verse_mentions)
qed

lemma fmt_d_1: "fmt_d 1 = ''1''"
  by (simp add: fmt_d_eq_one)

lemma singular_mentioned: "(''1'', ''bottle'') \<in> set (bottle_mentions song)"
proof -
  have "(''1'', ''bottle'') \<in> set (verse_mentions 1)"
    by (simp add: verse_mentions_def plural_def fmt_d_1)
  moreover have "(1::int) \<in> set (rev [1..99])"
    by simp
  ultimately show ?thesis
    unfolding bottle_mentions_song by (simp only: set_append set_concat set_map) blast
qed

lemma zero_mentioned: "(''more'', ''bottles'') \<in> set (bottle_mentions song)"
  by (simp add: bottle_mentions_song)

text \<open>
  Claim C4. Every bottle noun in the output, with the count word before it (300
  mentions in all), is \<open>bottle\<close> exactly when the count is \<open>1\<close> (the rendering of the
  count 1 and of no other), and \<open>bottles\<close> otherwise; both cases occur, and zero,
  written \<open>no more\<close>, takes \<open>bottles\<close>.
\<close>

theorem plural_iff_not_one:
  "main env = Some (0, song)
   \<and> length (bottle_mentions song) = 300
   \<and> list_all (\<lambda>m. ((snd m = ''bottle'') = (fst m = ''1''))
                   \<and> (snd m = ''bottle'' \<or> snd m = ''bottles''))
        (bottle_mentions song)
   \<and> (''1'', ''bottle'') \<in> set (bottle_mentions song)
   \<and> (''more'', ''bottles'') \<in> set (bottle_mentions song)
   \<and> (\<forall>i. (fmt_d i = ''1'') = (i = 1))"
proof -
  have "list_all (\<lambda>m. ((snd m = ''bottle'') = (fst m = ''1''))
                   \<and> (snd m = ''bottle'' \<or> snd m = ''bottles''))
        (bottle_mentions song)"
    using agrees_song unfolding agrees_def [abs_def] .
  with main_song length_bottle_mentions singular_mentioned zero_mentioned fmt_d_eq_one
  show ?thesis by blast
qed

section \<open>The verses of the output\<close>

lemma line_A_nonempty: "line_A n \<noteq> []"
  by (simp add: line_A_def fmt_d_nonempty)

lemma line_B_nonempty: "line_B n \<noteq> []"
  by (simp add: line_B_def)

lemma closing_nonempty: "closing_1 \<noteq> []" "closing_2 \<noteq> []"
  by (simp_all add: closing_1_def closing_2_def)

lemma stanzas_of_triples:
  "stanzas_from [] (concat (map (\<lambda>n. [line_A n, line_B n, []]) ns) @ rest)
     = map (\<lambda>n. [line_A n, line_B n]) ns @ stanzas_from [] rest"
  by (induction ns) (simp_all add: line_A_nonempty line_B_nonempty)

lemma tail_of_triples:
  "tail_from [] (concat (map (\<lambda>n. [line_A n, line_B n, []]) ns) @ rest) = tail_from [] rest"
  by (induction ns) (simp_all add: line_A_nonempty line_B_nonempty)

lemma verses_of_song: "verses_of song = map (\<lambda>n. [line_A n, line_B n]) (rev [1..99])"
  unfolding verses_of_def lines_of_song stanzas_of_triples
  by (simp add: closing_nonempty)

lemma after_verses_song: "after_verses song = [closing_1, closing_2]"
  unfolding after_verses_def lines_of_song tail_of_triples
  by (simp add: closing_nonempty)

lemma leading_word_verse: "leading_word [line_A n, line_B n] = fmt_d n"
proof -
  have "\<forall>c\<in>set (fmt_d n). c \<noteq> CHR '' ''"
    using fmt_d_no_space [of n] by blast
  then have "takeWhile (\<lambda>c. c \<noteq> CHR '' '') (fmt_d n @ CHR '' '' # rest) = fmt_d n" for rest
    by (simp add: takeWhile_append2)
  then show ?thesis
    by (simp add: leading_word_def line_A_def)
qed

lemma lines_of_verse: "map_option lines_of (verse n) = Some [line_A n, line_B n, []]"
  by (simp add: verse_eq lines_of_verse_text)

text \<open>
  Claim C3. Read back from the output, the verses are exactly 99: the k-th of them is the
  verse for n = 99 - k, with the two lines of that n, opening with the decimal n, and as
  the loop body writes it; so they are the verses of 99, 98, ..., 1 in this order.
  They start at the first byte, and after the last of them only the two closing lines
  follow: no other verse stands before, between or after them.
\<close>

theorem output_is_99_verses:
  "main env = Some (0, song)
   \<and> length (verses_of song) = 99
   \<and> verses_of song = map (\<lambda>n. [line_A n, line_B n]) (rev [1..99])
   \<and> map leading_word (verses_of song) = map fmt_d (rev [1..99])
   \<and> rev [1..99] = map (\<lambda>k. 99 - int k) [0..<99]
   \<and> map (\<lambda>n. map_option lines_of (verse n)) (rev [1..99])
       = map (\<lambda>n. Some [line_A n, line_B n, '''']) (rev [1..99])
   \<and> after_verses song =
       [''No more bottles of beer on the wall, no more bottles of beer.'',
        ''Go to the store and buy some more, 99 bottles of beer on the wall.'']
   \<and> unterminated song = ''''"
proof -
  have n: "length (verses_of song) = 99"
    unfolding verses_of_song using length_rev_upto [of 99] by simp
  have w: "map leading_word (verses_of song) = map fmt_d (rev [1..99])"
    unfolding verses_of_song map_map by (rule map_cong [OF refl]) (simp add: leading_word_verse)
  have c: "rev [1..99] = map (\<lambda>k. 99 - int k) [0..<99]"
    using countdown [of 99] by simp
  have v: "map (\<lambda>n. map_option lines_of (verse n)) (rev [1..99])
       = map (\<lambda>n. Some [line_A n, line_B n, '''']) (rev [1..99])"
    by (rule map_cong [OF refl]) (simp add: lines_of_verse)
  have a: "after_verses song =
       [''No more bottles of beer on the wall, no more bottles of beer.'',
        ''Go to the store and buy some more, 99 bottles of beer on the wall.'']"
    by (simp add: after_verses_song closing_1_def closing_2_def)
  from main_song n verses_of_song w c v a unterminated_song show ?thesis
    by blast
qed

section \<open>Two runs\<close>

lemma process_body_text: "process_body n p = Some (p\<lparr>stdout := stdout p @ verse_text n\<rparr>)"
  by (simp add: process_body_def on_stdout_def printf_def verse_text_def line_A_def line_B_def
      plural_def newline_def)

lemma process_loop_exit: "n < 1 \<Longrightarrow> process_loop (n, p) = Some (n, p)"
  by (subst process_loop.simps) simp

lemma process_loop_iterate:
  "1 \<le> n \<Longrightarrow> process_loop (n, p) = process_loop (n - 1, p\<lparr>stdout := stdout p @ verse_text n\<rparr>)"
  by (subst process_loop.simps) (simp add: process_body_text)

lemma process_loop_run:
  "process_loop (int k, p)
     = Some (0, p\<lparr>stdout := stdout p @ concat (map verse_text (rev [1..int k]))\<rparr>)"
proof (induction k arbitrary: p)
  case 0
  then show ?case by (simp add: process_loop_exit)
next
  case (Suc k)
  have "process_loop (int (Suc k), p)
      = process_loop (int k, p\<lparr>stdout := stdout p @ verse_text (int (Suc k))\<rparr>)"
    using process_loop_iterate [of "int (Suc k)" p] by simp
  moreover have "rev [1..int (Suc k)] = int (Suc k) # rev [1..int k]"
    using rev_upto_step [of "int (Suc k)"] by simp
  ultimately show ?case
    by (simp add: Suc.IH)
qed

lemma process_main_song: "process_main p = Some (0, p\<lparr>stdout := stdout p @ song\<rparr>)"
proof -
  have "process_loop (99, p) = Some (0, p\<lparr>stdout := stdout p @ concat (map verse_text (rev [1..99]))\<rparr>)"
    using process_loop_run [of 99 p] by simp
  then show ?thesis
    by (simp add: process_main_def on_stdout_def puts_def song_def closing_1_def closing_2_def)
qed

lemma stdout_start: "stdout (start env) = []"
  by (simp add: start_def process_env.extend_def process.fields_def process.defs)

lemma process_main_agrees: "observed (process_main (start env)) = main env"
  by (simp add: observed_def process_main_song stdout_start main_song)

text \<open>
  Claim C9. The program is deterministic: started in any two environments (arguments,
  environment variables, standard input, clock, random seed), and from any two process
  states with the same output so far, the runs end with the same exit status and the
  same bytes on standard output. A run changes no part of the process state but the
  output, to which it appends the song; the status is 0.
\<close>

theorem runs_agree:
  "observed (process_main (start env1)) = observed (process_main (start env2))
   \<and> observed (process_main (p1\<lparr>stdout := out\<rparr>)) = observed (process_main (p2\<lparr>stdout := out\<rparr>))
   \<and> process_main p1 = Some (0, p1\<lparr>stdout := stdout p1 @ song\<rparr>)
   \<and> observed (process_main (start env1)) = Some (0, song)"
  by (simp add: observed_def process_main_song stdout_start)

end
